theory Spec2Isabelle
  imports Complex_Main "HOL-Library.AList"
begin

section \<open>JavaScript values and exceptions\<close>

text \<open>
  The library computes on JavaScript numbers. Integer arguments are modelled as \<open>int\<close> and
  the elements of numeric sequences and matrices as \<open>real\<close>: arithmetic is exact, which is
  what IEEE doubles do on integers below \<open>2^53\<close>; rounding, overflow to \<open>Infinity\<close> and the
  depth of the call stack are outside the model. The values a double can take beyond
  the reals (\<open>NaN\<close>, the two infinities) and \<open>undefined\<close>, which an out-of-range array read
  returns, are constructors of \<open>jsval\<close>.
\<close>

datatype jsval = Number real | NaN | PosInfinity | NegInfinity | Undefined

text \<open>
  \<open>throw new Error(msg)\<close> is \<open>Error msg\<close>; reading a property of \<open>undefined\<close>
  (\<open>a[0].length\<close> on an empty array) makes the runtime throw a \<open>TypeError\<close>.
\<close>

datatype exn = Error string | TypeError | RangeError

text \<open>The operator \<open>+\<close> on two values that are numbers or \<open>undefined\<close> (which converts to \<open>NaN\<close>).\<close>

fun js_add :: "jsval \<Rightarrow> jsval \<Rightarrow> jsval" where
  "js_add (Number x) (Number y) = Number (x + y)"
| "js_add (Number x) PosInfinity = PosInfinity"
| "js_add (Number x) NegInfinity = NegInfinity"
| "js_add PosInfinity (Number y) = PosInfinity"
| "js_add PosInfinity PosInfinity = PosInfinity"
| "js_add NegInfinity (Number y) = NegInfinity"
| "js_add NegInfinity NegInfinity = NegInfinity"
| "js_add _ _ = NaN"

text \<open>The sign of a product with an infinite factor; \<open>0 * Infinity\<close> is \<open>NaN\<close>.\<close>

definition signed_infinity :: "real \<Rightarrow> jsval" where
  "signed_infinity x = (if x = 0 then NaN else if 0 < x then PosInfinity else NegInfinity)"

fun js_mul :: "jsval \<Rightarrow> jsval \<Rightarrow> jsval" where
  "js_mul (Number x) (Number y) = Number (x * y)"
| "js_mul (Number x) PosInfinity = signed_infinity x"
| "js_mul (Number x) NegInfinity = signed_infinity (- x)"
| "js_mul PosInfinity (Number y) = signed_infinity y"
| "js_mul NegInfinity (Number y) = signed_infinity (- y)"
| "js_mul PosInfinity PosInfinity = PosInfinity"
| "js_mul PosInfinity NegInfinity = NegInfinity"
| "js_mul NegInfinity PosInfinity = NegInfinity"
| "js_mul NegInfinity NegInfinity = PosInfinity"
| "js_mul _ _ = NaN"

text \<open>The operator \<open>/\<close> on two finite numbers: a zero divisor gives \<open>NaN\<close> or an infinity.\<close>

definition js_div :: "real \<Rightarrow> real \<Rightarrow> jsval" where
  "js_div x y = (if y = 0 then signed_infinity x else Number (x / y))"

text \<open>
  The operator \<open>%\<close> on integers: the remainder of the division truncated towards zero,
  with the sign of the dividend. (A zero divisor gives \<open>NaN\<close> in JavaScript; no function
  below reaches \<open>%\<close> with one, and the model returns the dividend there.)
\<close>

definition js_rem :: "int \<Rightarrow> int \<Rightarrow> int" where
  "js_rem a b = sgn a * (\<bar>a\<bar> mod \<bar>b\<bar>)"

text \<open>\<open>xs[i]\<close>: \<open>undefined\<close> out of range.\<close>

definition js_index :: "jsval list \<Rightarrow> nat \<Rightarrow> jsval" where
  "js_index xs i = (if i < length xs then xs ! i else Undefined)"


section \<open>Statistics\<close>

text \<open>
  The frequency table of \<open>mode\<close> is a plain object. Its property keys are the decimal
  strings of the numbers; distinct numbers have distinct strings, so the model keeps the
  number as the key and \<open>.map(Number)\<close> is the identity on it. The object is the list of
  its properties in the order of their creation: assigning to an existing key keeps its
  place, assigning to a new key appends it (\<open>AList.update\<close>).

  \<open>Object.keys\<close> and \<open>Object.values\<close> enumerate the properties as the language
  prescribes: first the keys that are array indices (the integers from \<open>0\<close> to
  \<open>2^32 - 2\<close>) in ascending numeric order, then all other keys in the order of creation.
\<close>

type_synonym frequency_table = "(real \<times> nat) list"

definition is_array_index :: "real \<Rightarrow> bool" where
  "is_array_index x \<longleftrightarrow> real_of_int \<lfloor>x\<rfloor> = x \<and> 0 \<le> x \<and> x < 4294967295"

definition object_keys :: "frequency_table \<Rightarrow> real list" where
  "object_keys obj =
     sort (filter is_array_index (map fst obj)) @
     filter (\<lambda>k. \<not> is_array_index k) (map fst obj)"

text \<open>\<open>frequency[key] || 0\<close>: the count stored under the key, \<open>0\<close> when there is none.\<close>

definition count_or_0 :: "frequency_table \<Rightarrow> real \<Rightarrow> nat" where
  "count_or_0 obj key = (case map_of obj key of None \<Rightarrow> 0 | Some c \<Rightarrow> c)"

definition object_values :: "frequency_table \<Rightarrow> nat list" where
  "object_values obj = map (count_or_0 obj) (object_keys obj)"

text \<open>
  \<^verbatim>\<open>if (numbers.length === 0) return [];
  const frequency = {};
  numbers.forEach(num => { frequency[num] = (frequency[num] || 0) + 1; });
  const maxFreq = Math.max(...Object.values(frequency));
  return Object.keys(frequency).filter(key => frequency[key] === maxFreq).map(Number);\<close>
  \<open>Math.max\<close> is applied to a non-empty list of counts here.
\<close>

definition build_frequency :: "real list \<Rightarrow> frequency_table" where
  "build_frequency numbers =
     fold (\<lambda>num frequency. AList.update num (count_or_0 frequency num + 1) frequency) numbers []"

definition mode :: "real list \<Rightarrow> real list" where
  "mode numbers =
     (if length numbers = 0 then []
      else let frequency = build_frequency numbers;
               maxFreq = Max (set (object_values frequency))
           in filter (\<lambda>key. map_of frequency key = Some maxFreq) (object_keys frequency))"

text \<open>
  For the statement of what \<open>mode\<close> returns: the distinct values of a sequence in the order
  of their first occurrence, and the values whose count is the largest count.
\<close>

fun first_occurrences :: "real list \<Rightarrow> real list" where
  "first_occurrences [] = []"
| "first_occurrences (x # xs) = x # filter (\<lambda>y. y \<noteq> x) (first_occurrences xs)"

definition is_mode :: "real list \<Rightarrow> real \<Rightarrow> bool" where
  "is_mode xs x \<longleftrightarrow> count_list xs x = Max (count_list xs ` set xs)"


section \<open>Number theory\<close>

text \<open>
  \<^verbatim>\<open>for (let i = 5; i * i <= n; i += 6) {
    if (n % i === 0 || n % (i + 2) === 0) return false;
  }
  return true;\<close>
\<close>

function isPrime_loop :: "int \<Rightarrow> int \<Rightarrow> bool" where
  "isPrime_loop n i =
     (if i * i \<le> n
      then (if js_rem n i = 0 \<or> js_rem n (i + 2) = 0 then False
            else isPrime_loop n (i + 6))
      else True)"
  by pat_completeness auto
termination
proof (relation "measure (\<lambda>(n, i). nat (n + 1 - i))")
  show "wf (measure (\<lambda>(n, i). nat (n + 1 - i)))"
    by simp
next
  fix n i :: int
  assume le: "i * i \<le> n"
  have "i \<le> i * i"
  proof (cases "i \<le> 0")
    case True
    then show ?thesis
      using zero_le_square [of i] by linarith
  next
    case False
    then have "i * 1 \<le> i * i"
      by (intro mult_left_mono) auto
    then show ?thesis by simp
  qed
  with le show "((n, i + 6), (n, i)) \<in> measure (\<lambda>(n, i). nat (n + 1 - i))"
    by simp
qed

declare isPrime_loop.simps [simp del]

definition isPrime :: "int \<Rightarrow> bool" where
  "isPrime n =
     (if n \<le> 1 then False
      else if n \<le> 3 then True
      else if js_rem n 2 = 0 \<or> js_rem n 3 = 0 then False
      else isPrime_loop n 5)"

text \<open>
  \<^verbatim>\<open>return b === 0 ? a : this.gcd(b, a % b);\<close>
  Whether the recursion ends is a claim of its own, so it is not built into the
  definition: \<open>None\<close> stands for a call that never returns.
\<close>

partial_function (option) gcd_js :: "int \<Rightarrow> int \<Rightarrow> int option" where
  "gcd_js a b = (if b = 0 then Some a else gcd_js b (js_rem a b))"

text \<open>
  \<^verbatim>\<open>return Math.abs(a * b) / this.gcd(a, b);\<close>
  \<open>None\<close>: the call to \<open>gcd\<close> does not return; \<open>Some (Inl e)\<close>: the call throws \<open>e\<close>;
  \<open>Some (Inr v)\<close>: it returns \<open>v\<close>. The body has no \<open>throw\<close> and \<open>/\<close> never throws.
\<close>

definition lcm_js :: "int \<Rightarrow> int \<Rightarrow> (exn + jsval) option" where
  "lcm_js a b =
     (case gcd_js a b of
        None \<Rightarrow> None
      | Some g \<Rightarrow> Some (Inr (js_div (real_of_int \<bar>a * b\<bar>) (real_of_int g))))"


text \<open>
  The reference of the specification: trial division by every integer from \<open>2\<close> up to the
  square root, and primality itself.
\<close>

definition naive_isPrime :: "int \<Rightarrow> bool" where
  "naive_isPrime n \<longleftrightarrow> 2 \<le> n \<and> (\<forall>d\<in>{2..n}. d * d \<le> n \<longrightarrow> n mod d \<noteq> 0)"

definition prime_int :: "int \<Rightarrow> bool" where
  "prime_int n \<longleftrightarrow> 1 < n \<and> (\<forall>d\<in>{1..n}. d dvd n \<longrightarrow> d = 1 \<or> d = n)"


section \<open>Matrices\<close>

text \<open>
  A matrix is the array of its rows. \<^verbatim>\<open>Array(rows).fill().map(() => Array(cols).fill(0))\<close>
  makes a fresh row for every index.
\<close>

definition zeros :: "nat \<Rightarrow> nat \<Rightarrow> jsval list list" where
  "zeros rows cols = replicate rows (replicate cols (Number 0))"

text \<open>
  \<^verbatim>\<open>const matrix = this.zeros(size, size);
  for (let i = 0; i < size; i++) { matrix[i][i] = 1; }
  return matrix;\<close>
\<close>

definition identity :: "nat \<Rightarrow> jsval list list" where
  "identity sz =
     fold (\<lambda>i matrix. matrix[i := (matrix ! i)[i := Number 1]]) [0..<sz] (zeros sz sz)"

text \<open>
  \<^verbatim>\<open>if (a.length !== b.length || a[0].length !== b[0].length) {
    throw new Error('Both matrices must have the same dimensions');
  }
  return a.map((row, i) => row.map((val, j) => val + b[i][j]));\<close>
  When both arrays are empty the first test is false and \<open>a[0].length\<close> reads a property
  of \<open>undefined\<close>.
\<close>

definition add :: "jsval list list \<Rightarrow> jsval list list \<Rightarrow> exn + jsval list list" where
  "add a b =
     (if length a \<noteq> length b then Inl (Error ''Both matrices must have the same dimensions'')
      else (case (a, b) of
              (a0 # _, b0 # _) \<Rightarrow>
                if length a0 \<noteq> length b0
                then Inl (Error ''Both matrices must have the same dimensions'')
                else Inr (map (\<lambda>i. map (\<lambda>j. js_add (a ! i ! j) (js_index (b ! i) j))
                                       [0..<length (a ! i)])
                              [0..<length a])
            | _ \<Rightarrow> Inl TypeError))"

text \<open>
  \<^verbatim>\<open>if (a[0].length !== b.length) {
    throw new Error('Number of columns in matrix A must equal number of rows in matrix B');
  }
  const result = this.zeros(a.length, b[0].length);
  for (let i = 0; i < a.length; i++) {
    for (let j = 0; j < b[0].length; j++) {
      for (let k = 0; k < b.length; k++) {
        result[i][j] += a[i][k] * b[k][j];
      }
    }
  }
  return result;\<close>
\<close>

definition multiply_cell :: "jsval list list \<Rightarrow> jsval list list \<Rightarrow> nat \<Rightarrow> nat \<Rightarrow> nat \<Rightarrow>
    jsval list list \<Rightarrow> jsval list list" where
  "multiply_cell a b i j k result =
     result[i := (result ! i)[j := js_add (result ! i ! j)
                                     (js_mul (js_index (a ! i) k) (js_index (b ! k) j))]]"

definition multiply :: "jsval list list \<Rightarrow> jsval list list \<Rightarrow> exn + jsval list list" where
  "multiply a b =
     (case a of
        [] \<Rightarrow> Inl TypeError
      | a0 # _ \<Rightarrow>
          if length a0 \<noteq> length b
          then Inl (Error ''Number of columns in matrix A must equal number of rows in matrix B'')
          else (case b of
                  [] \<Rightarrow> Inl TypeError
                | b0 # _ \<Rightarrow>
                    Inr (fold (\<lambda>i. fold (\<lambda>j. fold (\<lambda>k. multiply_cell a b i j k) [0..<length b])
                                         [0..<length b0])
                              [0..<length a]
                              (zeros (length a) (length b0)))))"

text \<open>
  \<^verbatim>\<open>return matrix[0].map((_, colIndex) => matrix.map(row => row[colIndex]));\<close>
\<close>

definition transpose_js :: "jsval list list \<Rightarrow> exn + jsval list list" where
  "transpose_js matrix =
     (case matrix of
        [] \<Rightarrow> Inl TypeError
      | row0 # _ \<Rightarrow>
          Inr (map (\<lambda>colIndex. map (\<lambda>row. js_index row colIndex) matrix) [0..<length row0]))"

text \<open>A rectangular matrix: \<open>r\<close> rows of \<open>c\<close> cells each.\<close>

definition rectangular :: "nat \<Rightarrow> nat \<Rightarrow> jsval list list \<Rightarrow> bool" where
  "rectangular r c m \<longleftrightarrow> length m = r \<and> list_all (\<lambda>row. length row = c) m"

text \<open>A matrix of numbers: no cell is \<open>NaN\<close>, infinite or \<open>undefined\<close>.\<close>

definition is_number :: "jsval \<Rightarrow> bool" where
  "is_number v = (case v of Number _ \<Rightarrow> True | _ \<Rightarrow> False)"

definition numeric :: "jsval list list \<Rightarrow> bool" where
  "numeric m = list_all (list_all is_number) m"

text \<open>
  For the statement of what \<open>multiply\<close> computes: the value that the innermost loop leaves
  in cell \<open>(i, j)\<close> when it starts from \<open>v\<close> and runs over the indices \<open>ks\<close>, and the real
  number that a numeric cell holds.
\<close>

definition dot_from :: "jsval list list \<Rightarrow> jsval list list \<Rightarrow> nat \<Rightarrow> nat \<Rightarrow> nat list \<Rightarrow>
    jsval \<Rightarrow> jsval" where
  "dot_from a b i j ks v =
     foldl (\<lambda>acc k. js_add acc (js_mul (js_index (a ! i) k) (js_index (b ! k) j))) v ks"

definition num :: "jsval \<Rightarrow> real" where
  "num v = (case v of Number x \<Rightarrow> x | _ \<Rightarrow> 0)"


section \<open>Properties of the number-theory functions\<close>

lemma js_rem_abs_less: "b \<noteq> 0 \<Longrightarrow> \<bar>js_rem a b\<bar> < \<bar>b\<bar>"
  by (simp add: js_rem_def abs_mult abs_sgn_eq)

lemma js_rem_nonneg: "0 \<le> a \<Longrightarrow> 0 < b \<Longrightarrow> js_rem a b = a mod b"
  by (cases "a = 0") (simp_all add: js_rem_def)

lemma js_rem_eq_0_iff: "js_rem a b = 0 \<longleftrightarrow> b dvd a"
proof -
  have "js_rem a b = 0 \<longleftrightarrow> \<bar>a\<bar> mod \<bar>b\<bar> = 0"
    by (cases "a = 0") (simp_all add: js_rem_def sgn_eq_0_iff)
  also have "\<dots> \<longleftrightarrow> \<bar>b\<bar> dvd \<bar>a\<bar>"
    by (simp add: dvd_eq_mod_eq_0)
  finally show ?thesis by simp
qed

lemma gcd_js_total: "\<exists>g. gcd_js a b = Some g"
proof (induction "nat \<bar>b\<bar>" arbitrary: a b rule: less_induct)
  case less
  show ?case
  proof (cases "b = 0")
    case True
    then show ?thesis by (simp add: gcd_js.simps)
  next
    case False
    have "nat \<bar>js_rem a b\<bar> < nat \<bar>b\<bar>"
      using js_rem_abs_less [OF False, of a] by simp
    from less [OF this] obtain g where "gcd_js b (js_rem a b) = Some g"
      by blast
    with False show ?thesis
      by (subst gcd_js.simps) simp
  qed
qed

lemma gcd_js_rem: "gcd b (js_rem a b) = gcd a b"
proof -
  have "0 \<le> \<bar>a\<bar> mod \<bar>b\<bar>"
    by (cases "b = 0") simp_all
  then have abs_rem: "\<bar>js_rem a b\<bar> = \<bar>a\<bar> mod \<bar>b\<bar>"
    by (cases "a = 0") (simp_all add: js_rem_def abs_mult abs_sgn_eq)
  have "gcd b (js_rem a b) = gcd \<bar>b\<bar> \<bar>js_rem a b\<bar>"
    by simp
  also have "\<dots> = gcd \<bar>b\<bar> (\<bar>a\<bar> mod \<bar>b\<bar>)"
    by (simp only: abs_rem)
  also have "\<dots> = gcd \<bar>a\<bar> \<bar>b\<bar>"
    by (rule gcd_red_int [symmetric])
  finally show ?thesis by simp
qed

lemma gcd_js_abs: "gcd_js a b = Some g \<Longrightarrow> \<bar>g\<bar> = gcd a b"
proof (induction "nat \<bar>b\<bar>" arbitrary: a b rule: less_induct)
  case less
  show ?case
  proof (cases "b = 0")
    case True
    with less.prems show ?thesis by (simp add: gcd_js.simps)
  next
    case False
    have lt: "nat \<bar>js_rem a b\<bar> < nat \<bar>b\<bar>"
      using js_rem_abs_less [OF False, of a] by simp
    from less.prems False have "gcd_js b (js_rem a b) = Some g"
      by (subst (asm) gcd_js.simps) simp
    from less.hyps [OF lt this] show ?thesis
      by (simp add: gcd_js_rem)
  qed
qed

lemma small_divisor:
  fixes n d :: int
  assumes "2 \<le> d" "d dvd n" "d < n"
  shows "\<exists>e. 2 \<le> e \<and> e * e \<le> n \<and> e dvd n"
proof -
  from assms obtain k where k: "n = d * k"
    by (auto elim: dvdE)
  have "\<not> k \<le> 1"
  proof
    assume "k \<le> 1"
    with assms have "d * k \<le> d * 1"
      by (intro mult_left_mono) auto
    with k assms show False by simp
  qed
  then have k2: "2 \<le> k" by simp
  show ?thesis
  proof (cases "d \<le> k")
    case True
    with assms have "d * d \<le> d * k"
      by (intro mult_left_mono) auto
    with assms k show ?thesis by auto
  next
    case False
    with k2 have "k * k \<le> d * k"
      by (intro mult_right_mono) auto
    with k2 k show ?thesis by auto
  qed
qed

lemma isPrime_loop_correct:
  assumes "\<forall>d. 2 \<le> d \<and> d < i \<longrightarrow> \<not> d dvd n" "i mod 6 = 5" "5 \<le> i"
    and "\<not> 2 dvd n" "\<not> 3 dvd n"
  shows "isPrime_loop n i \<longleftrightarrow> (\<forall>d. 2 \<le> d \<and> d * d \<le> n \<longrightarrow> \<not> d dvd n)"
  using assms
proof (induction n i rule: isPrime_loop.induct)
  case (1 n i)
  show ?case
  proof (cases "i * i \<le> n")
    case False
    have "\<not> d dvd n" if "2 \<le> d" "d * d \<le> n" for d
    proof -
      have "d < i"
      proof (rule ccontr)
        assume "\<not> d < i"
        with \<open>5 \<le> i\<close> have "i * i \<le> d * d"
          by (intro mult_mono) auto
        with that False show False by simp
      qed
      with that "1.prems"(1) show ?thesis by blast
    qed
    with False show ?thesis
      by (subst isPrime_loop.simps) auto
  next
    case le: True
    show ?thesis
    proof (cases "i dvd n \<or> (i + 2) dvd n")
      case True
      have "5 * i \<le> i * i"
        using \<open>5 \<le> i\<close> by (intro mult_right_mono) auto
      with le \<open>5 \<le> i\<close> have big: "i + 2 < n" by linarith
      have "\<exists>d. 2 \<le> d \<and> d dvd n \<and> d < n"
      proof (cases "i dvd n")
        case True
        with big \<open>5 \<le> i\<close> show ?thesis
          by (intro exI [of _ i]) simp
      next
        case False
        with True big \<open>5 \<le> i\<close> show ?thesis
          by (intro exI [of _ "i + 2"]) simp
      qed
      with small_divisor have "\<not> (\<forall>d. 2 \<le> d \<and> d * d \<le> n \<longrightarrow> \<not> d dvd n)"
        by blast
      with le True show ?thesis
        by (subst isPrime_loop.simps) (simp add: js_rem_eq_0_iff)
    next
      case False
      have inv: "\<forall>d. 2 \<le> d \<and> d < i + 6 \<longrightarrow> \<not> d dvd n"
      proof (intro allI impI)
        fix d assume d: "2 \<le> d \<and> d < i + 6"
        consider "d < i" | "d = i" | "d = i + 1" | "d = i + 2" | "d = i + 3" | "d = i + 4" | "d = i + 5"
          using d by linarith
        then show "\<not> d dvd n"
        proof cases
          case 1
          with d "1.prems"(1) show ?thesis by blast
        next
          case 2
          with False show ?thesis by simp
        next
          case 3
          with \<open>i mod 6 = 5\<close> have "2 dvd d" by presburger
          with \<open>\<not> 2 dvd n\<close> show ?thesis using dvd_trans by blast
        next
          case 4
          with False show ?thesis by simp
        next
          case 5
          with \<open>i mod 6 = 5\<close> have "2 dvd d" by presburger
          with \<open>\<not> 2 dvd n\<close> show ?thesis using dvd_trans by blast
        next
          case 6
          with \<open>i mod 6 = 5\<close> have "3 dvd d" by presburger
          with \<open>\<not> 3 dvd n\<close> show ?thesis using dvd_trans by blast
        next
          case 7
          with \<open>i mod 6 = 5\<close> have "2 dvd d" by presburger
          with \<open>\<not> 2 dvd n\<close> show ?thesis using dvd_trans by blast
        qed
      qed
      have "(i + 6) mod 6 = 5" "5 \<le> i + 6"
        using \<open>i mod 6 = 5\<close> \<open>5 \<le> i\<close> by presburger+
      from "1.IH" [OF le _ inv this \<open>\<not> 2 dvd n\<close> \<open>\<not> 3 dvd n\<close>] False
      have "isPrime_loop n (i + 6) \<longleftrightarrow> (\<forall>d. 2 \<le> d \<and> d * d \<le> n \<longrightarrow> \<not> d dvd n)"
        by (simp add: js_rem_eq_0_iff)
      with le False show ?thesis
        by (subst isPrime_loop.simps) (simp add: js_rem_eq_0_iff)
    qed
  qed
qed

lemma isPrime_trial: "isPrime n \<longleftrightarrow> 2 \<le> n \<and> (\<forall>d. 2 \<le> d \<and> d * d \<le> n \<longrightarrow> \<not> d dvd n)"
proof -
  consider "n \<le> 1" | "n = 2 \<or> n = 3" | "3 < n" "2 dvd n \<or> 3 dvd n" | "3 < n" "\<not> 2 dvd n" "\<not> 3 dvd n"
    by linarith
  then show ?thesis
  proof cases
    case 1
    then show ?thesis by (simp add: isPrime_def)
  next
    case 2
    have "\<not> d * d \<le> n" if "2 \<le> d" for d :: int
    proof -
      from that have "2 * 2 \<le> d * d" by (intro mult_mono) auto
      with 2 show ?thesis by auto
    qed
    with 2 show ?thesis by (auto simp: isPrime_def)
  next
    case 3
    have "\<exists>d. 2 \<le> d \<and> d dvd n \<and> d < n"
    proof (cases "2 dvd n")
      case True
      with 3 show ?thesis
        by (intro exI [of _ 2]) simp
    next
      case False
      with 3 show ?thesis
        by (intro exI [of _ 3]) simp
    qed
    with small_divisor have "\<not> (\<forall>d. 2 \<le> d \<and> d * d \<le> n \<longrightarrow> \<not> d dvd n)"
      by blast
    with 3 show ?thesis
      by (simp add: isPrime_def js_rem_eq_0_iff)
  next
    case 4
    have "\<forall>d. 2 \<le> d \<and> d < 5 \<longrightarrow> \<not> d dvd n"
    proof (intro allI impI)
      fix d :: int assume "2 \<le> d \<and> d < 5"
      then consider "d = 2" | "d = 3" | "d = 4" by linarith
      then show "\<not> d dvd n"
      proof cases
        case 3
        have "(2::int) dvd 4" by simp
        with 3 4 show ?thesis using dvd_trans by blast
      qed (use 4 in auto)
    qed
    from isPrime_loop_correct [OF this _ _ 4(2,3)] 4 show ?thesis
      by (simp add: isPrime_def js_rem_eq_0_iff)
  qed
qed

lemma isPrime_naive: "isPrime n \<longleftrightarrow> naive_isPrime n"
proof -
  have bound: "d \<le> n" if "2 \<le> d" "d * d \<le> n" for d :: int
  proof -
    from that have "d * 1 \<le> d * d" by (intro mult_left_mono) auto
    then have "d \<le> d * d" by (simp only: mult_1_right)
    with that show ?thesis by linarith
  qed
  have "(\<forall>d. 2 \<le> d \<and> d * d \<le> n \<longrightarrow> \<not> d dvd n) \<longleftrightarrow> (\<forall>d\<in>{2..n}. d * d \<le> n \<longrightarrow> n mod d \<noteq> 0)"
  proof (intro iffI ballI allI impI)
    fix d assume a: "\<forall>d. 2 \<le> d \<and> d * d \<le> n \<longrightarrow> \<not> d dvd n" and d: "d \<in> {2..n}" "d * d \<le> n"
    from d(1) have "2 \<le> d" by simp
    with a d(2) have "\<not> d dvd n" by blast
    then show "n mod d \<noteq> 0" by (simp add: mod_eq_0_iff_dvd)
  next
    fix d assume a: "\<forall>d\<in>{2..n}. d * d \<le> n \<longrightarrow> n mod d \<noteq> 0" and d: "2 \<le> d \<and> d * d \<le> n"
    from d bound [of d] have "d \<in> {2..n}" by simp
    with a have "d * d \<le> n \<longrightarrow> n mod d \<noteq> 0" by (rule bspec)
    with d have "n mod d \<noteq> 0" by (rule_tac mp) simp_all
    then show "\<not> d dvd n" by (simp add: mod_eq_0_iff_dvd)
  qed
  then show ?thesis
    by (simp only: isPrime_trial naive_isPrime_def)
qed

lemma isPrime_prime: "isPrime n \<longleftrightarrow> prime_int n"
proof
  assume p: "isPrime n"
  then have n: "2 \<le> n" and nd: "\<And>d. 2 \<le> d \<Longrightarrow> d * d \<le> n \<Longrightarrow> \<not> d dvd n"
    by (auto simp: isPrime_trial)
  have "d = 1 \<or> d = n" if "d \<in> {1..n}" "d dvd n" for d
  proof (rule ccontr)
    assume "\<not> (d = 1 \<or> d = n)"
    with that have "2 \<le> d" "d dvd n" "d < n" by auto
    from small_divisor [OF this] nd show False by blast
  qed
  with n show "prime_int n" by (auto simp: prime_int_def)
next
  assume p: "prime_int n"
  then have n: "1 < n" and pr: "\<And>d. 1 \<le> d \<Longrightarrow> d \<le> n \<Longrightarrow> d dvd n \<Longrightarrow> d = 1 \<or> d = n"
    by (auto simp: prime_int_def)
  have "\<not> d dvd n" if "2 \<le> d" "d * d \<le> n" for d
  proof
    assume "d dvd n"
    from that have "d * 2 \<le> d * d" by (intro mult_left_mono) auto
    with that have "d < n" by linarith
    with pr [of d] that \<open>d dvd n\<close> show False by auto
  qed
  with n show "isPrime n" by (auto simp: isPrime_trial)
qed


subsection \<open>Claims about the number-theory functions\<close>

text \<open>
  C1, as stated: \<open>lcm(0, 0)\<close> fails with a ZeroDivisionError. It does not: \<open>gcd(0, 0)\<close>
  returns \<open>0\<close>, the quotient \<open>0 / 0\<close> is \<open>NaN\<close>, and \<open>lcm\<close> returns it; nothing is thrown.
\<close>

theorem lcm_zero_zero_does_not_raise: "\<not> (\<exists>e. lcm_js 0 0 = Some (Inl e))"
  by (simp add: lcm_js_def gcd_js.simps)

text \<open>
  C1, amended: when both arguments are \<open>0\<close>, \<open>lcm(a, b)\<close> returns \<open>NaN\<close> and raises no error.
\<close>

theorem lcm_zero_zero_returns_NaN: "lcm_js 0 0 = Some (Inr NaN)"
  by (simp add: lcm_js_def gcd_js.simps js_div_def signed_infinity_def)

text \<open>
  C4: for every integer \<open>n\<close> in \<open>[0, 10000]\<close>, \<open>isPrime(n)\<close> is true exactly when \<open>n\<close> is
  prime: it agrees with trial division by every integer from \<open>2\<close> up to the square root of
  \<open>n\<close>. It is false for \<open>n \<le> 1\<close>, true for \<open>2\<close> and \<open>3\<close>, false for a larger \<open>n\<close> divisible
  by \<open>2\<close> or \<open>3\<close>, and otherwise the result of the loop over the 6k\<plusminus>1 wheel.
\<close>

theorem isPrime_correct:
  assumes "0 \<le> n" and "n \<le> 10000"
  shows "(isPrime n \<longleftrightarrow> naive_isPrime n) \<and> (isPrime n \<longleftrightarrow> prime_int n) \<and>
    (n \<le> 1 \<longrightarrow> \<not> isPrime n) \<and>
    (n = 2 \<or> n = 3 \<longrightarrow> isPrime n) \<and>
    (3 < n \<and> (n mod 2 = 0 \<or> n mod 3 = 0) \<longrightarrow> \<not> isPrime n) \<and>
    (3 < n \<and> n mod 2 \<noteq> 0 \<and> n mod 3 \<noteq> 0 \<longrightarrow> isPrime n = isPrime_loop n 5)"
proof -
  have "n \<le> 1 \<longrightarrow> \<not> isPrime n" "n = 2 \<or> n = 3 \<longrightarrow> isPrime n"
    by (auto simp: isPrime_def)
  moreover have "3 < n \<and> (n mod 2 = 0 \<or> n mod 3 = 0) \<longrightarrow> \<not> isPrime n"
    by (simp add: isPrime_def js_rem_nonneg)
  moreover have "3 < n \<and> n mod 2 \<noteq> 0 \<and> n mod 3 \<noteq> 0 \<longrightarrow> isPrime n = isPrime_loop n 5"
    by (simp add: isPrime_def js_rem_nonneg)
  ultimately show ?thesis
    using isPrime_naive [of n] isPrime_prime [of n] by blast
qed

theorem isPrime_correct_witness:
  "isPrime 97 \<and> naive_isPrime 97 \<and> prime_int 97 \<and> \<not> isPrime 91 \<and> \<not> naive_isPrime 91"
proof -
  have "isPrime 97" "\<not> isPrime 91"
    by code_simp+
  with isPrime_correct [of 97] isPrime_correct [of 91] show ?thesis
    by simp
qed

text \<open>
  C6: the Euclidean recursion \<open>gcd(a, 0) = a\<close>, \<open>gcd(a, b) = gcd(b, a % b)\<close> terminates for
  every pair of integers, negative ones included: the call returns a value.
\<close>

theorem gcd_js_terminates: "\<exists>g. gcd_js a b = Some g"
  by (rule gcd_js_total)

theorem gcd_js_terminates_witness: "\<exists>g. gcd_js (- 48) (- 18) = Some g"
  by (rule gcd_js_terminates)

text \<open>
  C10: for every pair of integers other than \<open>(0, 0)\<close>, \<open>gcd(a, b)\<close> returns a nonzero
  integer that divides both \<open>a\<close> and \<open>b\<close>; the value can be negative when an argument is
  (\<open>gcd(4, -2) = -2\<close>: no sign is normalised); and \<open>gcd(0, 0)\<close> returns \<open>0\<close>.
\<close>

theorem gcd_js_divides:
  "(a \<noteq> 0 \<or> b \<noteq> 0 \<longrightarrow> (\<exists>g. gcd_js a b = Some g \<and> g \<noteq> 0 \<and> g dvd a \<and> g dvd b)) \<and>
   gcd_js 4 (- 2) = Some (- 2) \<and> gcd_js 0 0 = Some 0"
proof -
  obtain g where g: "gcd_js a b = Some g"
    using gcd_js_total by blast
  from gcd_js_abs [OF g] have abs: "\<bar>g\<bar> = gcd a b" .
  have "\<bar>g\<bar> dvd a" "\<bar>g\<bar> dvd b"
    unfolding abs by simp_all
  then have "g dvd a" "g dvd b"
    by simp_all
  moreover have "g \<noteq> 0" if "a \<noteq> 0 \<or> b \<noteq> 0"
    using that abs by auto
  moreover have "gcd_js 4 (- 2) = Some (- 2)" "gcd_js 0 0 = Some 0"
    by (simp_all add: gcd_js.simps js_rem_def)
  ultimately show ?thesis
    using g by blast
qed

theorem gcd_js_divides_witness:
  "\<exists>g. gcd_js (- 48) 18 = Some g \<and> g \<noteq> 0 \<and> g dvd (- 48) \<and> g dvd 18"
  using gcd_js_divides [of "- 48" 18] by simp


section \<open>Properties of the statistics functions\<close>

lemma set_first_occurrences: "set (first_occurrences xs) = set xs"
  by (induction xs) auto

lemma distinct_first_occurrences: "distinct (first_occurrences xs)"
  by (induction xs) (auto simp: set_first_occurrences)

lemma count_or_0_update:
  "count_or_0 (AList.update x v f) y = (if y = x then v else count_or_0 f y)"
  by (simp add: count_or_0_def update_conv')

lemma count_or_0_fold:
  "count_or_0 (fold (\<lambda>num frequency. AList.update num (count_or_0 frequency num + 1) frequency) xs acc) y
     = count_list xs y + count_or_0 acc y"
  by (induction xs arbitrary: acc) (simp_all add: count_or_0_update)

lemma keys_fold:
  "map fst (fold (\<lambda>num frequency. AList.update num (count_or_0 frequency num + 1) frequency) xs acc)
     = map fst acc @ filter (\<lambda>y. y \<notin> set (map fst acc)) (first_occurrences xs)"
proof (induction xs arbitrary: acc)
  case Nil
  then show ?case by simp
next
  case (Cons x xs)
  let ?acc' = "AList.update x (count_or_0 acc x + 1) acc"
  have keys': "map fst ?acc' = (if x \<in> set (map fst acc) then map fst acc else map fst acc @ [x])"
    by (simp add: update_keys)
  show ?case
  proof (cases "x \<in> set (map fst acc)")
    case True
    then have "filter (\<lambda>y. y \<notin> set (map fst acc)) (filter (\<lambda>y. y \<noteq> x) (first_occurrences xs))
        = filter (\<lambda>y. y \<notin> set (map fst acc)) (first_occurrences xs)"
      by (auto intro: filter_cong)
    with True keys' Cons.IH [of ?acc'] show ?thesis
      by simp
  next
    case False
    have "filter (\<lambda>y. y \<notin> set (map fst acc @ [x])) (first_occurrences xs)
        = filter (\<lambda>y. y \<notin> set (map fst acc)) (filter (\<lambda>y. y \<noteq> x) (first_occurrences xs))"
      by (auto intro: filter_cong)
    with False keys' Cons.IH [of ?acc'] show ?thesis
      by simp
  qed
qed

lemma keys_build_frequency: "map fst (build_frequency xs) = first_occurrences xs"
  using keys_fold [of xs "[]"] by (simp add: build_frequency_def)

lemma count_build_frequency: "count_or_0 (build_frequency xs) y = count_list xs y"
  using count_or_0_fold [of xs "[]" y] by (simp add: build_frequency_def count_or_0_def)

lemma count_list_pos: "x \<in> set xs \<Longrightarrow> 0 < count_list xs x"
  by (induction xs) auto

lemma map_of_build_frequency:
  "map_of (build_frequency xs) y = (if y \<in> set xs then Some (count_list xs y) else None)"
proof (cases "y \<in> set xs")
  case True
  then have "y \<in> fst ` set (build_frequency xs)"
    using keys_build_frequency [of xs] set_first_occurrences [of xs]
    by (metis set_map)
  then obtain c where c: "map_of (build_frequency xs) y = Some c"
    by (metis map_of_eq_None_iff not_Some_eq)
  with count_build_frequency [of xs y] have "c = count_list xs y"
    by (simp add: count_or_0_def)
  with c True show ?thesis by simp
next
  case False
  then have "y \<notin> fst ` set (build_frequency xs)"
    using keys_build_frequency [of xs] set_first_occurrences [of xs]
    by (metis set_map)
  with False show ?thesis
    by (simp add: map_of_eq_None_iff)
qed

lemma set_object_keys: "set (object_keys (build_frequency xs)) = set xs"
  by (auto simp: object_keys_def keys_build_frequency set_first_occurrences)

lemma maxFreq_eq: "Max (set (object_values (build_frequency xs))) = Max (count_list xs ` set xs)"
proof -
  have "set (object_values (build_frequency xs)) = count_list xs ` set xs"
    by (simp add: object_values_def set_object_keys count_build_frequency [abs_def])
  then show ?thesis by simp
qed

lemma mode_eq:
  "mode xs = sort (filter is_array_index (filter (is_mode xs) (first_occurrences xs))) @
             filter (\<lambda>x. \<not> is_array_index x) (filter (is_mode xs) (first_occurrences xs))"
proof (cases "xs = []")
  case True
  then show ?thesis by (simp add: mode_def)
next
  case False
  have "filter (\<lambda>key. map_of (build_frequency xs) key = Some (Max (count_list xs ` set xs))) ks
      = filter (is_mode xs) ks" if "set ks \<subseteq> set xs" for ks
    using that by (intro filter_cong) (auto simp: map_of_build_frequency is_mode_def)
  then have "mode xs = filter (is_mode xs) (object_keys (build_frequency xs))"
    using False by (simp add: mode_def Let_def maxFreq_eq set_object_keys)
  also have "\<dots> = sort (filter (is_mode xs) (filter is_array_index (first_occurrences xs))) @
      filter (is_mode xs) (filter (\<lambda>x. \<not> is_array_index x) (first_occurrences xs))"
    by (simp add: object_keys_def keys_build_frequency filter_sort)
  also have "\<dots> = sort (filter is_array_index (filter (is_mode xs) (first_occurrences xs))) @
      filter (\<lambda>x. \<not> is_array_index x) (filter (is_mode xs) (first_occurrences xs))"
    by (simp add: conj_commute)
  finally show ?thesis .
qed

lemma set_mode: "set (mode xs) = {x \<in> set xs. is_mode xs x}"
  by (auto simp: mode_eq set_first_occurrences)

lemma distinct_mode: "distinct (mode xs)"
  by (auto simp: mode_eq distinct_first_occurrences)

subsection \<open>Claims about the statistics functions\<close>

text \<open>
  C9, as stated: the modes come in an order consistent with first encounter or with
  ascending order. For \<open>[-1, 1]\<close> both values are modes; first encounter and ascending
  order both give \<open>[-1, 1]\<close>, and \<open>mode\<close> returns \<open>[1, -1]\<close>, because the key \<open>1\<close> is an array
  index and the key \<open>-1\<close> is not.
\<close>

theorem mode_order_counterexample:
  "mode [- 1, 1] = [1, - 1] \<and> set (mode [- 1, 1]) = {- 1, 1} \<and>
   first_occurrences [- 1, 1] = [- 1, 1] \<and> sort [- 1, 1 :: real] = [- 1, 1] \<and>
   mode [- 1, 1] \<noteq> first_occurrences [- 1, 1] \<and> mode [- 1, 1] \<noteq> sort [- 1, 1]"
proof -
  have "mode [- 1, 1] = [1, - 1]"
    by code_simp
  then show ?thesis
    by auto
qed

text \<open>
  C9, amended: for every numeric sequence \<open>xs\<close>, \<open>mode(xs)\<close> returns exactly the values whose
  occurrence count (under exact numeric equality) is the maximum occurrence count, all
  tied modes, each once, in a fixed order: first the modes that are array indices
  (integers from \<open>0\<close> to \<open>2^32 - 2\<close>) in ascending order, then the other modes in the order
  of their first encounter. The mode of the empty sequence is the empty sequence, and
  \<open>mode([1,2,2,3,4,4,4,5]) = [4]\<close>.
\<close>

theorem mode_spec:
  "set (mode xs) = {x \<in> set xs. count_list xs x = Max (count_list xs ` set xs)} \<and>
   distinct (mode xs) \<and>
   mode xs = sort (filter is_array_index (filter (is_mode xs) (first_occurrences xs))) @
             filter (\<lambda>x. \<not> is_array_index x) (filter (is_mode xs) (first_occurrences xs)) \<and>
   mode [] = [] \<and> mode [1, 2, 2, 3, 4, 4, 4, 5] = [4]"
proof -
  have "mode [] = []"
    by (simp add: mode_def)
  moreover have "mode [1, 2, 2, 3, 4, 4, 4, 5] = [4]"
    by code_simp
  moreover have "set (mode xs) = {x \<in> set xs. count_list xs x = Max (count_list xs ` set xs)}"
    by (simp add: set_mode is_mode_def)
  ultimately show ?thesis
    using distinct_mode [of xs] mode_eq [of xs] by simp
qed

theorem mode_spec_witness:
  "mode [7, 1/2, 3, 1/2, 3, 7, 2] = [3, 7, 1/2] \<and>
   set (mode [7, 1/2, 3, 1/2, 3, 7, 2]) =
     {x \<in> set [7, 1/2, 3, 1/2, 3, 7, 2 :: real].
        count_list [7, 1/2, 3, 1/2, 3, 7, 2] x =
        Max (count_list [7, 1/2, 3, 1/2, 3, 7, 2 :: real] ` set [7, 1/2, 3, 1/2, 3, 7, 2])}"
proof -
  have "mode [7, 1/2, 3, 1/2, 3, 7, 2] = [3, 7, 1/2]"
    by code_simp
  with mode_spec [of "[7, 1/2, 3, 1/2, 3, 7, 2]"] show ?thesis
    by blast
qed


section \<open>Properties of the matrix functions\<close>

lemma rectangular_nth: "rectangular r c m \<Longrightarrow> i < r \<Longrightarrow> length (m ! i) = c"
  by (auto simp: rectangular_def list_all_length)

lemma rectangular_iff:
  "rectangular r c m \<longleftrightarrow> length m = r \<and> (\<forall>i<r. length (m ! i) = c)"
  by (auto simp: rectangular_def list_all_length)

lemma transpose_js_rect:
  assumes "rectangular r c m" and "0 < r"
  shows "transpose_js m = Inr (map (\<lambda>j. map (\<lambda>i. m ! i ! j) [0..<r]) [0..<c])"
proof -
  from assms obtain row0 rest where m: "m = row0 # rest"
    by (cases m) (auto simp: rectangular_def)
  with assms have len0: "length row0 = c"
    using rectangular_nth [of r c m 0] by simp
  have "map (\<lambda>row. js_index row j) m = map (\<lambda>i. m ! i ! j) [0..<r]" if "j < c" for j
  proof (rule nth_equalityI)
    show "length (map (\<lambda>row. js_index row j) m) = length (map (\<lambda>i. m ! i ! j) [0..<r])"
      using assms by (simp add: rectangular_def)
  next
    fix i assume "i < length (map (\<lambda>row. js_index row j) m)"
    then have i: "i < r" using assms by (simp add: rectangular_def)
    with assms have "length m = r" "length (m ! i) = c"
      by (simp_all add: rectangular_iff)
    with i that show "map (\<lambda>row. js_index row j) m ! i = map (\<lambda>i. m ! i ! j) [0..<r] ! i"
      by (simp add: js_index_def)
  qed
  then have "map (\<lambda>colIndex. map (\<lambda>row. js_index row colIndex) m) [0..<c] =
      map (\<lambda>j. map (\<lambda>i. m ! i ! j) [0..<r]) [0..<c]"
    by simp
  with m len0 show ?thesis
    by (simp add: transpose_js_def)
qed

lemma transpose_js_twice:
  assumes "rectangular r c m" and "0 < r" and "0 < c"
  shows "transpose_js (map (\<lambda>j. map (\<lambda>i. m ! i ! j) [0..<r]) [0..<c]) = Inr m"
proof -
  let ?t = "map (\<lambda>j. map (\<lambda>i. m ! i ! j) [0..<r]) [0..<c]"
  have rect: "rectangular c r ?t"
    by (simp add: rectangular_iff)
  have "map (\<lambda>i. map (\<lambda>j. ?t ! j ! i) [0..<c]) [0..<r] = m"
  proof (rule nth_equalityI)
    show "length (map (\<lambda>i. map (\<lambda>j. ?t ! j ! i) [0..<c]) [0..<r]) = length m"
      using assms by (simp add: rectangular_iff)
  next
    fix i assume "i < length (map (\<lambda>i. map (\<lambda>j. ?t ! j ! i) [0..<c]) [0..<r])"
    then have i: "i < r" by simp
    with assms have len: "length (m ! i) = c"
      by (simp add: rectangular_iff)
    have "map (\<lambda>j. ?t ! j ! i) [0..<c] = m ! i"
      by (rule nth_equalityI) (use i len in simp_all)
    with i show "map (\<lambda>i. map (\<lambda>j. ?t ! j ! i) [0..<c]) [0..<r] ! i = m ! i"
      by simp
  qed
  with transpose_js_rect [OF rect \<open>0 < c\<close>] show ?thesis
    by simp
qed

lemma add_rect:
  assumes a: "rectangular r c a" and b: "rectangular r c b" and r: "0 < r"
  shows "add a b = Inr (map (\<lambda>i. map (\<lambda>j. js_add (a ! i ! j) (b ! i ! j)) [0..<c]) [0..<r])"
proof -
  from a r obtain a0 ar where a_eq: "a = a0 # ar"
    by (cases a) (auto simp: rectangular_def)
  from b r obtain b0 br where b_eq: "b = b0 # br"
    by (cases b) (auto simp: rectangular_def)
  from a b have len: "length a = r" "length b = r"
    by (simp_all add: rectangular_def)
  from a b r a_eq b_eq have len0: "length a0 = c" "length b0 = c"
    using rectangular_nth [of r c a 0] rectangular_nth [of r c b 0] by simp_all
  have "map (\<lambda>j. js_add (a ! i ! j) (js_index (b ! i) j)) [0..<length (a ! i)] =
      map (\<lambda>j. js_add (a ! i ! j) (b ! i ! j)) [0..<c]" if "i < r" for i
    using that a b by (simp add: rectangular_iff js_index_def)
  then have "map (\<lambda>i. map (\<lambda>j. js_add (a ! i ! j) (js_index (b ! i) j)) [0..<length (a ! i)]) [0..<r] =
      map (\<lambda>i. map (\<lambda>j. js_add (a ! i ! j) (b ! i ! j)) [0..<c]) [0..<r]"
    by simp
  with len len0 show ?thesis
    unfolding add_def a_eq b_eq by simp
qed

lemma add_mismatch:
  assumes "length a \<noteq> length b \<or> (a \<noteq> [] \<and> b \<noteq> [] \<and> length (hd a) \<noteq> length (hd b))"
  shows "add a b = Inl (Error ''Both matrices must have the same dimensions'')"
  using assms by (cases a; cases b) (auto simp: add_def)

lemma multiply_k_loop:
  assumes "i < length res" and "j < length (res ! i)"
  shows "fold (\<lambda>k. multiply_cell a b i j k) ks res =
    res[i := (res ! i)[j := dot_from a b i j ks (res ! i ! j)]]"
  using assms
proof (induction ks arbitrary: res)
  case Nil
  then show ?case by (simp add: dot_from_def)
next
  case (Cons k ks)
  let ?res' = "multiply_cell a b i j k res"
  from Cons.prems have len: "i < length ?res'" "j < length (?res' ! i)"
    by (simp_all add: multiply_cell_def)
  from Cons.prems have cell: "?res' ! i ! j =
      js_add (res ! i ! j) (js_mul (js_index (a ! i) k) (js_index (b ! k) j))"
    by (simp add: multiply_cell_def)
  have "fold (\<lambda>k. multiply_cell a b i j k) (k # ks) res =
      ?res'[i := (?res' ! i)[j := dot_from a b i j ks (?res' ! i ! j)]]"
    using Cons.IH [OF len] by simp
  also have "\<dots> = res[i := (res ! i)[j := dot_from a b i j (k # ks) (res ! i ! j)]]"
    using Cons.prems by (simp add: cell) (simp add: multiply_cell_def dot_from_def)
  finally show ?case .
qed

lemma multiply_j_loop:
  assumes "i < length res" and "\<forall>j\<in>set js. j < length (res ! i)" and "distinct js"
  shows "fold (\<lambda>j. fold (\<lambda>k. multiply_cell a b i j k) ks) js res =
    res[i := map (\<lambda>j. if j \<in> set js then dot_from a b i j ks (res ! i ! j) else res ! i ! j)
                 [0..<length (res ! i)]]"
  using assms
proof (induction js arbitrary: res)
  case Nil
  then show ?case by (simp add: map_nth)
next
  case (Cons j js)
  let ?res' = "fold (\<lambda>k. multiply_cell a b i j k) ks res"
  from Cons.prems have j: "j < length (res ! i)" "j \<notin> set js"
    by simp_all
  have res': "?res' = res[i := (res ! i)[j := dot_from a b i j ks (res ! i ! j)]]"
    using Cons.prems(1) j(1) by (rule multiply_k_loop)
  with Cons.prems have pre: "i < length ?res'" "\<forall>j\<in>set js. j < length (?res' ! i)" "distinct js"
    by simp_all
  have "fold (\<lambda>j. fold (\<lambda>k. multiply_cell a b i j k) ks) (j # js) res =
      ?res'[i := map (\<lambda>j. if j \<in> set js then dot_from a b i j ks (?res' ! i ! j) else ?res' ! i ! j)
                     [0..<length (?res' ! i)]]"
    using Cons.IH [OF pre] by simp
  also have "\<dots> = res[i := map (\<lambda>j'. if j' \<in> set (j # js) then dot_from a b i j' ks (res ! i ! j')
                                       else res ! i ! j') [0..<length (res ! i)]]"
    unfolding res' using Cons.prems(1) j
    by (auto simp: nth_list_update intro!: arg_cong [where f = "list_update res i"])
  finally show ?case .
qed

lemma multiply_i_loop:
  assumes "\<forall>i\<in>set is. i < length res" and "distinct is"
    and "\<forall>i\<in>set is. length (res ! i) = c"
  shows "fold (\<lambda>i. fold (\<lambda>j. fold (\<lambda>k. multiply_cell a b i j k) ks) [0..<c]) is res =
    map (\<lambda>i. if i \<in> set is then map (\<lambda>j. dot_from a b i j ks (res ! i ! j)) [0..<c] else res ! i)
        [0..<length res]"
  using assms
proof (induction "is" arbitrary: res)
  case Nil
  then show ?case by (simp add: map_nth)
next
  case (Cons i "is")
  let ?res' = "fold (\<lambda>j. fold (\<lambda>k. multiply_cell a b i j k) ks) [0..<c] res"
  from Cons.prems have i: "i < length res" "i \<notin> set is" "length (res ! i) = c"
    by simp_all
  have "?res' = res[i := map (\<lambda>j. if j \<in> set [0..<c] then dot_from a b i j ks (res ! i ! j)
                                  else res ! i ! j) [0..<length (res ! i)]]"
    using i by (intro multiply_j_loop) simp_all
  moreover have "map (\<lambda>j. if j \<in> set [0..<c] then dot_from a b i j ks (res ! i ! j)
                                  else res ! i ! j) [0..<length (res ! i)] =
      map (\<lambda>j. dot_from a b i j ks (res ! i ! j)) [0..<c]"
    using i(3) by (intro map_cong) simp_all
  ultimately have res': "?res' = res[i := map (\<lambda>j. dot_from a b i j ks (res ! i ! j)) [0..<c]]"
    by (simp only:)
  with Cons.prems i have pre: "\<forall>i\<in>set is. i < length ?res'" "distinct is"
    "\<forall>i\<in>set is. length (?res' ! i) = c"
    by (auto simp: nth_list_update)
  have "fold (\<lambda>i. fold (\<lambda>j. fold (\<lambda>k. multiply_cell a b i j k) ks) [0..<c]) (i # is) res =
      map (\<lambda>i. if i \<in> set is then map (\<lambda>j. dot_from a b i j ks (?res' ! i ! j)) [0..<c] else ?res' ! i)
        [0..<length ?res']"
    using Cons.IH [OF pre] by simp
  also have "\<dots> = map (\<lambda>i'. if i' \<in> set (i # is)
        then map (\<lambda>j. dot_from a b i' j ks (res ! i' ! j)) [0..<c] else res ! i') [0..<length res]"
    unfolding res' using i by (auto simp: nth_list_update)
  finally show ?case .
qed

lemma multiply_eq:
  assumes "a = a0 # ar" and "b = b0 # br" and "length a0 = length b"
  shows "multiply a b =
    Inr (map (\<lambda>i. map (\<lambda>j. dot_from a b i j [0..<length b] (Number 0)) [0..<length b0])
             [0..<length a])"
proof -
  let ?z = "zeros (length a) (length b0)"
  have z: "length ?z = length a" "\<forall>i\<in>set [0..<length a]. length (?z ! i) = length b0"
    by (simp_all add: zeros_def)
  have "fold (\<lambda>i. fold (\<lambda>j. fold (\<lambda>k. multiply_cell a b i j k) [0..<length b]) [0..<length b0])
          [0..<length a] ?z =
      map (\<lambda>i. if i \<in> set [0..<length a]
                then map (\<lambda>j. dot_from a b i j [0..<length b] (?z ! i ! j)) [0..<length b0]
                else ?z ! i) [0..<length ?z]"
    using z by (intro multiply_i_loop) simp_all
  also have "\<dots> = map (\<lambda>i. map (\<lambda>j. dot_from a b i j [0..<length b] (Number 0)) [0..<length b0])
             [0..<length a]"
    by (simp add: zeros_def cong: map_cong)
  finally show ?thesis
    using assms by (simp add: multiply_def)
qed

lemma is_number_num: "is_number v \<Longrightarrow> v = Number (num v)"
  by (cases v) (simp_all add: is_number_def num_def)

lemma numeric_nth: "numeric m \<Longrightarrow> i < length m \<Longrightarrow> j < length (m ! i) \<Longrightarrow> is_number (m ! i ! j)"
  by (simp add: numeric_def list_all_length)

lemma dot_numeric:
  assumes "m \<le> p" and "length (a ! i) = p" and "\<forall>k<p. is_number (a ! i ! k)"
    and "\<forall>k<p. j < length (b ! k) \<and> is_number (b ! k ! j)"
  shows "dot_from a b i j [0..<m] (Number 0) = Number (\<Sum>k<m. num (a ! i ! k) * num (b ! k ! j))"
  using assms(1)
proof (induction m)
  case 0
  then show ?case by (simp add: dot_from_def)
next
  case (Suc m)
  then have m: "m < p" by simp
  with assms have "a ! i ! m = Number (num (a ! i ! m))" "b ! m ! j = Number (num (b ! m ! j))"
    "m < length (a ! i)" "j < length (b ! m)"
    by (simp_all add: is_number_num)
  then have "js_mul (js_index (a ! i) m) (js_index (b ! m) j) =
      Number (num (a ! i ! m) * num (b ! m ! j))"
    by (metis js_index_def js_mul.simps(1))
  moreover have "dot_from a b i j [0..<m] (Number 0) = Number (\<Sum>k<m. num (a ! i ! k) * num (b ! k ! j))"
    using Suc by simp
  ultimately show ?case
    by (simp add: dot_from_def)
qed

lemma multiply_numeric:
  assumes a: "rectangular r p a" "numeric a" and b: "rectangular p c b" "numeric b"
    and pos: "0 < r" "0 < p"
  shows "multiply a b =
    Inr (map (\<lambda>i. map (\<lambda>j. Number (\<Sum>k<p. num (a ! i ! k) * num (b ! k ! j))) [0..<c]) [0..<r])"
proof -
  from a pos obtain a0 ar where a_eq: "a = a0 # ar"
    by (cases a) (auto simp: rectangular_def)
  from b pos obtain b0 br where b_eq: "b = b0 # br"
    by (cases b) (auto simp: rectangular_def)
  from a b have len: "length a = r" "length b = p"
    by (simp_all add: rectangular_def)
  from a b pos a_eq b_eq have len0: "length a0 = p" "length b0 = c"
    using rectangular_nth [of r p a 0] rectangular_nth [of p c b 0] by simp_all
  have "dot_from a b i j [0..<p] (Number 0) = Number (\<Sum>k<p. num (a ! i ! k) * num (b ! k ! j))"
    if "i < r" "j < c" for i j
  proof (rule dot_numeric)
    show "p \<le> p" by simp
    show "length (a ! i) = p"
      using a that by (simp add: rectangular_iff)
    then show "\<forall>k<p. is_number (a ! i ! k)"
      using a that len by (simp add: numeric_nth)
    show "\<forall>k<p. j < length (b ! k) \<and> is_number (b ! k ! j)"
      using b that len by (simp add: rectangular_iff numeric_nth)
  qed
  then have "map (\<lambda>i. map (\<lambda>j. dot_from a b i j [0..<p] (Number 0)) [0..<c]) [0..<r] =
      map (\<lambda>i. map (\<lambda>j. Number (\<Sum>k<p. num (a ! i ! k) * num (b ! k ! j))) [0..<c]) [0..<r]"
    by simp
  with multiply_eq [OF a_eq b_eq] len len0 show ?thesis
    by simp
qed

lemma identity_loop:
  assumes "\<forall>i\<in>set is. i < length m" and "distinct is"
  shows "fold (\<lambda>i matrix. matrix[i := (matrix ! i)[i := v]]) is m =
    map (\<lambda>i. if i \<in> set is then (m ! i)[i := v] else m ! i) [0..<length m]"
  using assms
proof (induction "is" arbitrary: m)
  case Nil
  then show ?case by (simp add: map_nth)
next
  case (Cons i "is")
  let ?m' = "m[i := (m ! i)[i := v]]"
  from Cons.prems have i: "i < length m" "i \<notin> set is"
    by simp_all
  from Cons.prems have pre: "\<forall>i\<in>set is. i < length ?m'" "distinct is"
    by simp_all
  have "fold (\<lambda>i matrix. matrix[i := (matrix ! i)[i := v]]) (i # is) m =
      map (\<lambda>i. if i \<in> set is then (?m' ! i)[i := v] else ?m' ! i) [0..<length ?m']"
    using Cons.IH [OF pre] by simp
  also have "\<dots> = map (\<lambda>i'. if i' \<in> set (i # is) then (m ! i')[i' := v] else m ! i') [0..<length m]"
    using i by (auto simp: nth_list_update)
  finally show ?case .
qed

lemma identity_eq:
  "identity n = map (\<lambda>i. map (\<lambda>k. Number (if i = k then 1 else 0)) [0..<n]) [0..<n]"
proof -
  have "identity n = map (\<lambda>i. if i \<in> set [0..<n] then (zeros n n ! i)[i := Number 1] else zeros n n ! i)
      [0..<length (zeros n n)]"
    unfolding identity_def by (rule identity_loop) (simp_all add: zeros_def)
  also have "\<dots> = map (\<lambda>i. map (\<lambda>k. Number (if i = k then 1 else 0)) [0..<n]) [0..<n]"
  proof -
    have "(replicate n (Number 0))[i := Number 1] = map (\<lambda>k. Number (if i = k then 1 else 0)) [0..<n]"
      if "i < n" for i
      by (rule nth_equalityI) (use that in \<open>auto simp: nth_list_update\<close>)
    then show ?thesis
      by (simp add: zeros_def)
  qed
  finally show ?thesis .
qed

lemma multiply_identity_numeric:
  assumes "rectangular n c m" and "numeric m" and "0 < n"
  shows "multiply (identity n) m = Inr m"
proof -
  have id_rect: "rectangular n n (identity n)" and id_num: "numeric (identity n)"
    by (simp_all add: identity_eq rectangular_iff numeric_def list_all_length is_number_def)
  have cell: "Number (\<Sum>k<n. num (identity n ! i ! k) * num (m ! k ! j)) = m ! i ! j"
    if "i < n" "j < c" for i j
  proof -
    have "(\<Sum>k<n. num (identity n ! i ! k) * num (m ! k ! j)) =
        (\<Sum>k<n. if k = i then num (m ! k ! j) else 0)"
      using that by (intro sum.cong) (auto simp: identity_eq num_def)
    also have "\<dots> = num (m ! i ! j)"
      using that by simp
    finally show ?thesis
      using assms that by (simp add: is_number_num [symmetric] numeric_nth rectangular_iff)
  qed
  have "map (\<lambda>i. map (\<lambda>j. Number (\<Sum>k<n. num (identity n ! i ! k) * num (m ! k ! j))) [0..<c]) [0..<n] = m"
  proof (rule nth_equalityI)
    show "length (map (\<lambda>i. map (\<lambda>j. Number (\<Sum>k<n. num (identity n ! i ! k) * num (m ! k ! j))) [0..<c]) [0..<n]) = length m"
      using assms by (simp add: rectangular_iff)
  next
    fix i
    assume "i < length (map (\<lambda>i. map (\<lambda>j. Number (\<Sum>k<n. num (identity n ! i ! k) * num (m ! k ! j))) [0..<c]) [0..<n])"
    then have i: "i < n" by simp
    with assms have len: "length (m ! i) = c"
      by (simp add: rectangular_iff)
    have "map (\<lambda>j. Number (\<Sum>k<n. num (identity n ! i ! k) * num (m ! k ! j))) [0..<c] = m ! i"
      by (rule nth_equalityI) (use i len cell in simp_all)
    with i show "map (\<lambda>i. map (\<lambda>j. Number (\<Sum>k<n. num (identity n ! i ! k) * num (m ! k ! j))) [0..<c]) [0..<n] ! i = m ! i"
      by simp
  qed
  with multiply_numeric [OF id_rect id_num assms(1,2) assms(3) assms(3)] show ?thesis
    by simp
qed


subsection \<open>Claims about the matrix functions\<close>

text \<open>
  C2, as stated: \<open>add\<close> succeeds on every pair of matrices of the same shape, the zero-row
  matrices of \<open>zeros(0, cols)\<close> included. On two matrices without rows the row counts agree,
  the test goes on to \<open>a[0].length\<close>, and the call raises a \<open>TypeError\<close>.
\<close>

theorem add_zero_rows_raises:
  "zeros 0 3 = [] \<and> rectangular 0 3 (zeros 0 3) \<and>
   add (zeros 0 3) (zeros 0 3) = Inl TypeError \<and> \<not> (\<exists>res. add (zeros 0 3) (zeros 0 3) = Inr res)"
  by (simp add: zeros_def rectangular_def add_def)

text \<open>
  C2, amended: for every pair of rectangular matrices \<open>a\<close> and \<open>b\<close> with the same number of
  rows, at least one, and the same number of columns (zero columns included), \<open>add(a, b)\<close>
  succeeds and returns the matrix with \<open>Result[i][j] = a[i][j] + b[i][j]\<close>; whenever the row
  counts or the first rows' column counts differ, \<open>add(a, b)\<close> fails with the error for
  mismatched dimensions (the specification's DimensionMismatchError). On two matrices
  without rows it raises a \<open>TypeError\<close>.
\<close>

theorem add_spec:
  "(rectangular r c a \<and> rectangular r c b \<and> 0 < r \<longrightarrow>
      (\<exists>res. add a b = Inr res \<and> rectangular r c res \<and>
         (\<forall>i<r. \<forall>j<c. res ! i ! j = js_add (a ! i ! j) (b ! i ! j)))) \<and>
   (length a \<noteq> length b \<or> (a \<noteq> [] \<and> b \<noteq> [] \<and> length (hd a) \<noteq> length (hd b)) \<longrightarrow>
      add a b = Inl (Error ''Both matrices must have the same dimensions'')) \<and>
   js_add (Number x) (Number y) = Number (x + y) \<and>
   add [] [] = Inl TypeError"
proof -
  let ?res = "map (\<lambda>i. map (\<lambda>j. js_add (a ! i ! j) (b ! i ! j)) [0..<c]) [0..<r]"
  have "rectangular r c ?res" "\<forall>i<r. \<forall>j<c. ?res ! i ! j = js_add (a ! i ! j) (b ! i ! j)"
    by (simp_all add: rectangular_iff)
  then have "rectangular r c a \<and> rectangular r c b \<and> 0 < r \<longrightarrow>
      (\<exists>res. add a b = Inr res \<and> rectangular r c res \<and>
         (\<forall>i<r. \<forall>j<c. res ! i ! j = js_add (a ! i ! j) (b ! i ! j)))"
    using add_rect [of r c a b] by blast
  moreover have "add [] [] = Inl TypeError"
    by (simp add: add_def)
  ultimately show ?thesis
    using add_mismatch [of a b] by simp
qed

theorem add_spec_witness:
  "add [[Number 1, Number 2], [Number 3, Number 4]] [[Number 10, Number 20], [Number 30, Number 40]]
     = Inr [[Number 11, Number 22], [Number 33, Number 44]] \<and>
   (\<exists>res. add [[], []] [[], []] = Inr res \<and> rectangular 2 0 res) \<and>
   add [[Number 1, Number 2]] [[Number 1]] = Inl (Error ''Both matrices must have the same dimensions'')"
proof -
  have "add [[Number 1, Number 2], [Number 3, Number 4]] [[Number 10, Number 20], [Number 30, Number 40]]
     = Inr [[Number 11, Number 22], [Number 33, Number 44]]"
    by (simp add: add_def js_index_def upt_conv_Cons)
  moreover have "rectangular 2 0 [[], []]"
    by (simp add: rectangular_def)
  ultimately show ?thesis
    using add_spec [of 2 0 "[[], []]" "[[], []]"]
      add_spec [of _ _ "[[Number 1, Number 2]]" "[[Number 1]]"]
    by simp
qed

text \<open>
  C3, as stated: \<open>transpose(transpose(M)) = M\<close> for every rectangular matrix. The transpose
  of a matrix with one row and no column is the matrix without rows, and transposing that
  raises a \<open>TypeError\<close>: there is no first row to take the columns from.
\<close>

theorem transpose_js_empty_columns:
  "rectangular 1 0 [[]] \<and> transpose_js [[]] = Inr [] \<and> transpose_js [] = Inl TypeError \<and>
   \<not> (\<exists>t. transpose_js [[]] = Inr t \<and> transpose_js t = Inr [[]])"
  by (simp add: rectangular_def transpose_js_def)

text \<open>
  C3, amended: for every rectangular matrix \<open>M\<close> with at least one row and at least one
  column, \<open>transpose(transpose(M)) = M\<close>, where \<open>transpose(m)\<close> returns the
  (\<open>m.cols\<close> by \<open>m.rows\<close>) matrix with \<open>result[j][i] = m[i][j]\<close> for all valid \<open>i\<close>, \<open>j\<close>.
\<close>

theorem transpose_js_involution:
  assumes "rectangular r c m" and "0 < r" and "0 < c"
  shows "\<exists>t. transpose_js m = Inr t \<and> rectangular c r t \<and>
    (\<forall>i<r. \<forall>j<c. t ! j ! i = m ! i ! j) \<and> transpose_js t = Inr m"
proof -
  let ?t = "map (\<lambda>j. map (\<lambda>i. m ! i ! j) [0..<r]) [0..<c]"
  have "transpose_js m = Inr ?t"
    using assms by (simp add: transpose_js_rect)
  moreover have "rectangular c r ?t"
    by (simp add: rectangular_iff)
  moreover have "\<forall>i<r. \<forall>j<c. ?t ! j ! i = m ! i ! j"
    by simp
  moreover have "transpose_js ?t = Inr m"
    using assms by (rule transpose_js_twice)
  ultimately show ?thesis by blast
qed

theorem transpose_js_involution_witness:
  "transpose_js [[Number 1, Number 2, Number 3], [Number 4, Number 5, Number 6]]
     = Inr [[Number 1, Number 4], [Number 2, Number 5], [Number 3, Number 6]] \<and>
   transpose_js [[Number 1, Number 4], [Number 2, Number 5], [Number 3, Number 6]]
     = Inr [[Number 1, Number 2, Number 3], [Number 4, Number 5, Number 6]]"
proof -
  have "rectangular 2 3 [[Number 1, Number 2, Number 3], [Number 4, Number 5, Number 6]]"
    by (simp add: rectangular_def)
  from transpose_js_involution [OF this]
  obtain t where "transpose_js [[Number 1, Number 2, Number 3], [Number 4, Number 5, Number 6]] = Inr t"
    and "transpose_js t = Inr [[Number 1, Number 2, Number 3], [Number 4, Number 5, Number 6]]"
    by auto
  moreover have "transpose_js [[Number 1, Number 2, Number 3], [Number 4, Number 5, Number 6]]
      = Inr [[Number 1, Number 4], [Number 2, Number 5], [Number 3, Number 6]]"
    by (simp add: transpose_js_def js_index_def upt_conv_Cons)
  ultimately show ?thesis
    by simp
qed

text \<open>
  C7, as stated: \<open>multiply(identity(n), M) = M\<close> for every \<open>n\<close>. For \<open>n = 0\<close> the identity is
  the matrix without rows, \<open>M\<close> has no rows either, and \<open>multiply\<close> raises a \<open>TypeError\<close> on
  \<open>a[0].length\<close>.
\<close>

theorem multiply_identity_zero_raises:
  "identity 0 = [] \<and> rectangular 0 0 [] \<and> numeric [] \<and>
   multiply (identity 0) [] = Inl TypeError \<and> multiply (identity 0) [] \<noteq> Inr []"
  by (simp add: identity_def zeros_def rectangular_def numeric_def multiply_def)

text \<open>
  C7, amended: for every \<open>n \<ge> 1\<close> and every rectangular matrix \<open>M\<close> of numbers with \<open>n\<close>
  rows, \<open>multiply(identity(n), M) = M\<close>, where \<open>multiply\<close> computes
  \<open>result[i][j] = \<Sum>\<^sub>k a[i][k] * b[k][j]\<close> and \<open>identity(size)\<close> is the \<open>size\<close> by \<open>size\<close> matrix
  with \<open>1\<close> on the diagonal and \<open>0\<close> elsewhere.
\<close>

theorem multiply_identity:
  assumes "0 < n" and "rectangular n c m" and "numeric m"
  shows "multiply (identity n) m = Inr m \<and>
    identity n = map (\<lambda>i. map (\<lambda>k. Number (if i = k then 1 else 0)) [0..<n]) [0..<n] \<and>
    (\<forall>r a. 0 < r \<and> rectangular r n a \<and> numeric a \<longrightarrow>
       multiply a m =
         Inr (map (\<lambda>i. map (\<lambda>j. Number (\<Sum>k<n. num (a ! i ! k) * num (m ! k ! j))) [0..<c])
                  [0..<r]))"
  using assms multiply_identity_numeric [of n c m] identity_eq [of n]
    multiply_numeric [of _ n _ c m]
  by blast

theorem multiply_identity_witness:
  "multiply (identity 2) [[Number 5, Number 6, Number 7], [Number 8, Number 9, Number 10]]
     = Inr [[Number 5, Number 6, Number 7], [Number 8, Number 9, Number 10]] \<and>
   identity 2 = [[Number 1, Number 0], [Number 0, Number 1]]"
proof -
  have pos: "0 < (2::nat)"
    by simp
  have rect: "rectangular 2 3 [[Number 5, Number 6, Number 7], [Number 8, Number 9, Number 10]]"
    by (simp add: rectangular_def)
  have nums: "numeric [[Number 5, Number 6, Number 7], [Number 8, Number 9, Number 10]]"
    by (simp add: numeric_def is_number_def)
  have "identity 2 = [[Number 1, Number 0], [Number 0, Number 1]]"
    by code_simp
  with multiply_identity [OF pos rect nums] show ?thesis
    by blast
qed

end
